theory Spec2Isabelle
  imports Complex_Main
begin

section \<open>Observation processor of the trading gym environment\<close>

text \<open>
  A shallow embedding of \<^verbatim>\<open>src/releat/gym_env/obs_processor.py\<close>.

  Conventions of the embedding:
  \<^item> numpy's float32 and Python's float are idealised as \<^typ>\<open>real\<close>; a cast between
    float widths (\<^verbatim>\<open>dtype=np.float32\<close>, \<^verbatim>\<open>astype\<close>) is the identity;
  \<^item> a two-dimensional array is the list of its rows, all of one width; an array without
    rows carries no width of its own;
  \<^item> a Python dictionary that is iterated over is an association list with distinct
    keys, in insertion order; one that is only looked up is a map;
  \<^item> every exception of the source is a value of \<open>error\<close>, returned as \<open>Inl\<close>;
  \<^item> the window dictionary \<^verbatim>\<open>raw_data\<close> is a record: the group buffers under their
    group ids, and the three side channels as fields; the observation likewise;
  \<^item> a numpy slice is a view: it shares the memory of the array it was cut from, and a
    write through it changes that array. Views are modelled explicitly in \<open>get_obs\<close>.
\<close>

subsection \<open>Data model\<close>

datatype error =
    DataUnavailable   \<comment> \<open>the store has no record under the key\<close>
  | KeyError
  | IndexError
  | ValueError
  | NameError         \<comment> \<open>a local variable read before any assignment\<close>
  | ZeroDivisionError
  | NonFinite         \<comment> \<open>numpy yields inf or nan, which a real cannot hold\<close>

type_synonym array1 = "real list"
type_synonym array2 = "real list list"

definition and_then :: "error + 'a \<Rightarrow> ('a \<Rightarrow> error + 'b) \<Rightarrow> error + 'b" where
  "and_then m f = (case m of Inl e \<Rightarrow> Inl e | Inr x \<Rightarrow> f x)"

text \<open>A record of the store: one feature vector per group id, and the side channels.\<close>

record bins =
  feat :: "string \<rightharpoonup> array1"
  b_date :: real
  b_trade_price :: array1
  b_date_arr :: array1

record aerospike_config =
  namespace :: string
  set_name :: string

text \<open>The instrument descriptor, with the fields of \<^verbatim>\<open>trading_instruments\<close> in
  \<^verbatim>\<open>constants.py\<close>.\<close>

record symbol_spec =
  symbol :: string
  pip :: real
  pip_val :: real
  contract_size :: real
  currency :: string
  commission :: real

record 'tc simple_feature =
  fc_symbol :: string
  transforms :: "'tc list"

record 'tc feature_group =
  simple_features :: "'tc simple_feature list"

text \<open>The part of the agent configuration that the observation processor reads.\<close>

record 'tc config =
  aerospike :: aerospike_config
  features :: "'tc feature_group list"
  symbol_info_index :: "string \<rightharpoonup> nat"
  symbol_info :: "symbol_spec list"

type_synonym key = "string \<times> string \<times> int"

text \<open>
  Modelled from the spec: the store client is an external collaborator, not under src/.
  Section 6 of the spec: \<^verbatim>\<open>get(key=(namespace, set, index)) -> (meta, meta, record)\<close>,
  and a missing key raises a miss condition (DataUnavailable). The client keeps the
  list of the keys it was asked for, in order, so that what a call fetches can be stated.
\<close>

record client =
  recs :: "key \<rightharpoonup> bins"
  fetched :: "key list"

definition client_get :: "client \<Rightarrow> key \<Rightarrow> (error + bins) \<times> client" where
  "client_get c k =
     ((case recs c k of None \<Rightarrow> Inl DataUnavailable | Some b \<Rightarrow> Inr b),
      c\<lparr>fetched := fetched c @ [k]\<rparr>)"

definition key_of :: "'tc config \<Rightarrow> int \<Rightarrow> key" where
  "key_of config j = (namespace (aerospike config), set_name (aerospike config), j)"

text \<open>The window: the buffers of the groups and the side channels of the latest record.\<close>

record window =
  bufs :: "string \<rightharpoonup> array2"
  date :: real
  trade_price :: array1
  date_arr :: array1

type_synonym shape = "(string \<times> int) list"

subsection \<open>Python and numpy primitives\<close>

text \<open>\<^verbatim>\<open>xs[-n:]\<close> for an integer \<open>n\<close>: the last \<open>n\<close> elements when \<open>n\<close> is positive (all
  of them when there are fewer), and \<^verbatim>\<open>xs[0:]\<close>, the whole list, when \<open>n\<close> is zero; a
  negative \<open>n\<close> makes the start \<open>-n\<close> positive.\<close>

definition last_n :: "int \<Rightarrow> 'a list \<Rightarrow> 'a list" where
  "last_n n xs = (if 0 < n then drop (length xs - nat n) xs else drop (nat (- n)) xs)"

text \<open>\<^verbatim>\<open>np.array(rows)\<close> on a list of vectors: a ragged list is refused.\<close>

definition np_array :: "array1 list \<Rightarrow> error + array2" where
  "np_array rows =
     (if \<forall>r \<in> set rows. length r = length (hd rows) then Inr rows else Inl ValueError)"

text \<open>\<^verbatim>\<open>np.vstack([a, [r]])\<close>: the row must have the width of the array.\<close>

definition vstack :: "array2 \<Rightarrow> array1 \<Rightarrow> error + array2" where
  "vstack a r =
     (if \<forall>x \<in> set a. length x = length r then Inr (a @ [r]) else Inl ValueError)"

text \<open>\<^verbatim>\<open>xs[i]\<close> for a non-negative index, and \<^verbatim>\<open>d[k]\<close> on a dictionary.\<close>

definition item :: "'a list \<Rightarrow> nat \<Rightarrow> error + 'a" where
  "item xs i = (if i < length xs then Inr (xs ! i) else Inl IndexError)"

definition lookup :: "('k \<rightharpoonup> 'v) \<Rightarrow> 'k \<Rightarrow> error + 'v" where
  "lookup d k = (case d k of None \<Rightarrow> Inl KeyError | Some v \<Rightarrow> Inr v)"

text \<open>\<^verbatim>\<open>a[:, 0]\<close>: the first channel of every row; an array of width 0 has none.\<close>

definition col0 :: "array2 \<Rightarrow> error + array1" where
  "col0 a = (if [] \<in> set a then Inl IndexError else Inr (map hd a))"

text \<open>\<^verbatim>\<open>str(n)\<close> for a natural number: its decimal digits.\<close>

definition digit_char :: "nat \<Rightarrow> char" where
  "digit_char d = ''0123456789'' ! d"

fun str :: "nat \<Rightarrow> string" where
  "str n = (if n < 10 then [digit_char n] else str (n div 10) @ [digit_char (n mod 10)])"

declare str.simps [simp del]

subsection \<open>init_raw_data\<close>

definition feat_group_inds :: "shape \<Rightarrow> string list" where
  "feat_group_inds raw_data_shape = filter (\<lambda>x. x \<noteq> ''max'') (map fst raw_data_shape)"

text \<open>The inner loop \<^verbatim>\<open>for k in feat_group_inds: raw_data[k].append(bins[k])\<close>.\<close>

fun append_fields ::
  "bins \<Rightarrow> string list \<Rightarrow> (string \<rightharpoonup> array1 list) \<Rightarrow> error + (string \<rightharpoonup> array1 list)" where
  "append_fields b [] raw = Inr raw"
| "append_fields b (k # ks) raw =
     (case raw k of
        None \<Rightarrow> Inl KeyError
      | Some rows \<Rightarrow>
          (case feat b k of
             None \<Rightarrow> Inl KeyError
           | Some v \<Rightarrow> append_fields b ks (raw(k \<mapsto> rows @ [v]))))"

text \<open>The outer loop over \<^verbatim>\<open>range(i - raw_data_shape["max"], i + 1)\<close>. The last record
  read stays in \<^verbatim>\<open>bins\<close> after the loop; before the first pass the name is unbound.\<close>

fun fetch_loop ::
  "'tc config \<Rightarrow> string list \<Rightarrow> int list \<Rightarrow>
   (string \<rightharpoonup> array1 list) \<times> bins option \<Rightarrow> client \<Rightarrow>
   (error + (string \<rightharpoonup> array1 list) \<times> bins option) \<times> client" where
  "fetch_loop config ks [] st c = (Inr st, c)"
| "fetch_loop config ks (j # js) (raw, last_bins) c =
     (case client_get c (key_of config j) of
        (Inl e, c') \<Rightarrow> (Inl e, c')
      | (Inr b, c') \<Rightarrow>
          (case append_fields b ks raw of
             Inl e \<Rightarrow> (Inl e, c')
           | Inr raw' \<Rightarrow> fetch_loop config ks js (raw', Some b) c'))"

text \<open>The last loop:
  \<^verbatim>\<open>raw_data[k] = np.array(raw_data[k][-raw_data_shape[k]:], dtype=np.float32)\<close>.\<close>

fun truncate_groups ::
  "shape \<Rightarrow> string list \<Rightarrow> (string \<rightharpoonup> array1 list) \<Rightarrow> (string \<rightharpoonup> array2) \<Rightarrow>
   error + (string \<rightharpoonup> array2)" where
  "truncate_groups sh [] raw out = Inr out"
| "truncate_groups sh (k # ks) raw out =
     (case raw k of
        None \<Rightarrow> Inl KeyError
      | Some rows \<Rightarrow>
          (case map_of sh k of
             None \<Rightarrow> Inl KeyError
           | Some n \<Rightarrow>
               (case np_array (last_n n rows) of
                  Inl e \<Rightarrow> Inl e
                | Inr arr \<Rightarrow> truncate_groups sh ks raw (out(k \<mapsto> arr)))))"

definition empty_lists :: "string list \<Rightarrow> (string \<rightharpoonup> array1 list)" where
  "empty_lists ks = fold (\<lambda>k m. m(k \<mapsto> [])) ks Map.empty"

definition init_raw_data ::
  "'tc config \<Rightarrow> client \<Rightarrow> shape \<Rightarrow> int \<Rightarrow> (error + window) \<times> client" where
  "init_raw_data config c raw_data_shape i =
     (let ks = feat_group_inds raw_data_shape in
      case map_of raw_data_shape ''max'' of
        None \<Rightarrow> (Inl KeyError, c)
      | Some m \<Rightarrow>
          (case fetch_loop config ks [i - m..i] (empty_lists ks, None) c of
             (Inl e, c') \<Rightarrow> (Inl e, c')
           | (Inr (raw, None), c') \<Rightarrow> (Inl NameError, c')
           | (Inr (raw, Some b), c') \<Rightarrow>
               (case truncate_groups raw_data_shape ks raw Map.empty of
                  Inl e \<Rightarrow> (Inl e, c')
                | Inr bs \<Rightarrow>
                    (Inr \<lparr>bufs = bs, date = b_date b, trade_price = b_trade_price b,
                          date_arr = b_date_arr b\<rparr>, c'))))"

subsection \<open>update_raw_data\<close>

text \<open>\<^verbatim>\<open>raw_data[k] = np.vstack([raw_data[k], bins[k]])[1:]\<close> for each group.\<close>

fun shift_groups ::
  "bins \<Rightarrow> string list \<Rightarrow> (string \<rightharpoonup> array2) \<Rightarrow> error + (string \<rightharpoonup> array2)" where
  "shift_groups b [] bs = Inr bs"
| "shift_groups b (k # ks) bs =
     (case feat b k of
        None \<Rightarrow> Inl KeyError
      | Some v \<Rightarrow>
          (case bs k of
             None \<Rightarrow> Inl KeyError
           | Some rows \<Rightarrow>
               (case vstack rows v of
                  Inl e \<Rightarrow> Inl e
                | Inr stacked \<Rightarrow> shift_groups b ks (bs(k \<mapsto> tl stacked)))))"

definition update_raw_data ::
  "'tc config \<Rightarrow> client \<Rightarrow> shape \<Rightarrow> window \<Rightarrow> int \<Rightarrow> (error + window) \<times> client" where
  "update_raw_data config c raw_data_shape raw_data i =
     (let ks = feat_group_inds raw_data_shape in
      case client_get c (key_of config i) of
        (Inl e, c') \<Rightarrow> (Inl e, c')
      | (Inr b, c') \<Rightarrow>
          (case shift_groups b ks (bufs raw_data) of
             Inl e \<Rightarrow> (Inl e, c')
           | Inr bs \<Rightarrow>
               (Inr \<lparr>bufs = bs, date = b_date b, trade_price = b_trade_price b,
                     date_arr = b_date_arr b\<rparr>, c')))"

subsection \<open>get_obs\<close>

text \<open>
  An entry of the observation under construction is either a view of a window buffer
  (the key of the buffer and the rows of it that the view shows, in order) or an array
  of its own.
\<close>

datatype entry = View string "nat list" | Owned array2

text \<open>\<^verbatim>\<open>a[::s]\<close> on \<open>n\<close> rows shows the rows \<open>0, s, 2s, ...\<close>.\<close>

definition every_nth :: "nat \<Rightarrow> nat \<Rightarrow> nat list" where
  "every_nth s n = filter (\<lambda>i. i mod s = 0) [0..<n]"

definition downsample :: "nat \<Rightarrow> 'a list \<Rightarrow> 'a list" where
  "downsample s xs = map (\<lambda>i. xs ! i) (every_nth s (length xs))"

definition read_entry :: "(string \<rightharpoonup> array2) \<Rightarrow> entry \<Rightarrow> array2" where
  "read_entry raw e =
     (case e of
        Owned a \<Rightarrow> a
      | View b idx \<Rightarrow> (case raw b of None \<Rightarrow> [] | Some rows \<Rightarrow> map (\<lambda>i. rows ! i) idx))"

text \<open>\<^verbatim>\<open>e[1:]\<close>: a view again, without its first row.\<close>

definition drop_first :: "entry \<Rightarrow> entry" where
  "drop_first e = (case e of Owned a \<Rightarrow> Owned (tl a) | View b idx \<Rightarrow> View b (tl idx))"

text \<open>Writing channel 0 of the rows \<open>idx\<close> of an array, one value per row.\<close>

fun set_col0 :: "array2 \<Rightarrow> nat list \<Rightarrow> array1 \<Rightarrow> array2" where
  "set_col0 rows (i # idx) (v # vs) = set_col0 (rows[i := v # tl (rows ! i)]) idx vs"
| "set_col0 rows idx vs = rows"

definition with_col0 :: "array1 \<Rightarrow> array2 \<Rightarrow> array2" where
  "with_col0 vs a = map2 (\<lambda>v r. v # tl r) vs a"

text \<open>\<^verbatim>\<open>e[:, 0] = vs\<close>: through a view the write lands in the window buffer.\<close>

definition write_col0 ::
  "(string \<rightharpoonup> array2) \<Rightarrow> entry \<Rightarrow> array1 \<Rightarrow> (string \<rightharpoonup> array2) \<times> entry" where
  "write_col0 raw e vs =
     (case e of
        Owned a \<Rightarrow> (raw, Owned (with_col0 vs a))
      | View b idx \<Rightarrow>
          (case raw b of
             None \<Rightarrow> (raw, e)
           | Some rows \<Rightarrow> (raw(b \<mapsto> set_col0 rows idx vs), e)))"

text \<open>numpy broadcasts a source of length 1 over the target; any other length must be
  the target's.\<close>

definition broadcast_to :: "nat \<Rightarrow> array1 \<Rightarrow> error + array1" where
  "broadcast_to m vs =
     (if length vs = m then Inr vs
      else if length vs = 1 then Inr (replicate m (hd vs))
      else Inl ValueError)"

text \<open>\<^verbatim>\<open>feats - feats[-1]\<close> and \<^verbatim>\<open>feats[:-1] / pip\<close>. A division of array elements by
  zero gives inf or nan in numpy, with a warning and no exception.\<close>

definition sub_last :: "array1 \<Rightarrow> error + array1" where
  "sub_last feats = (if feats = [] then Inl IndexError else Inr (map (\<lambda>x. x - last feats) feats))"

definition div_pip :: "array1 \<Rightarrow> real \<Rightarrow> error + array1" where
  "div_pip feats p =
     (if p = 0 \<and> feats \<noteq> [] then Inl NonFinite else Inr (map (\<lambda>x. x / p) feats))"

text \<open>The transform stages are \<^verbatim>\<open>releat.data.transformers.apply_transform\<close>, which is
  not under src/: the stage function is the parameter \<open>apply_transform\<close>.\<close>

fun apply_transforms ::
  "(array2 \<Rightarrow> 'tc \<Rightarrow> error + array2) \<Rightarrow> array2 \<Rightarrow> 'tc list \<Rightarrow> error + array2" where
  "apply_transforms apply_transform feats [] = Inr feats"
| "apply_transforms apply_transform feats (tc # tcs) =
     and_then (apply_transform feats tc) (\<lambda>feats'. apply_transforms apply_transform feats' tcs)"

text \<open>The first loop: \<^verbatim>\<open>obs[k] = raw_data[k][::obs_interval[k]]\<close>.\<close>

fun slice_groups ::
  "(string \<times> nat) list \<Rightarrow> string list \<Rightarrow> (string \<rightharpoonup> array2) \<Rightarrow> (string \<rightharpoonup> entry) \<Rightarrow>
   error + (string \<rightharpoonup> entry)" where
  "slice_groups obs_interval [] raw obs = Inr obs"
| "slice_groups obs_interval (k # ks) raw obs =
     and_then (lookup raw k) (\<lambda>rows.
     and_then (lookup (map_of obs_interval) k) (\<lambda>s.
       if s = 0 then Inl ValueError
       else slice_groups obs_interval ks raw (obs(k \<mapsto> View k (every_nth s (length rows))))))"

text \<open>One pass of the second loop, for the feature group \<open>feat_group_ind\<close>.\<close>

definition process_group ::
  "(array2 \<Rightarrow> 'tc \<Rightarrow> error + array2) \<Rightarrow> 'tc config \<Rightarrow> nat \<Rightarrow>
   (string \<rightharpoonup> array2) \<Rightarrow> (string \<rightharpoonup> entry) \<Rightarrow>
   error + (string \<rightharpoonup> array2) \<times> (string \<rightharpoonup> entry)" where
  "process_group apply_transform config feat_group_ind raw obs =
     and_then (item (features config) feat_group_ind) (\<lambda>feat_group.
     and_then (item (simple_features feat_group) 0) (\<lambda>fc.
     and_then (lookup obs (str feat_group_ind)) (\<lambda>e.
     and_then (col0 (read_entry raw e)) (\<lambda>feats.
     and_then (sub_last feats) (\<lambda>feats.
     and_then (lookup (symbol_info_index config) (fc_symbol fc)) (\<lambda>symbol_index.
     and_then (item (symbol_info config) symbol_index) (\<lambda>info.
     and_then (div_pip (butlast feats) (pip info)) (\<lambda>feats.
     and_then (apply_transforms apply_transform (map (\<lambda>x. [x]) feats) (transforms fc)) (\<lambda>feats.
     let e1 = drop_first e in
     and_then (col0 feats) (\<lambda>vs.
     and_then (broadcast_to (length (read_entry raw e1)) vs) (\<lambda>vs.
     let (raw', e2) = write_col0 raw e1 vs in
     Inr (raw', obs(str feat_group_ind \<mapsto> Owned (read_entry raw' e2))))))))))))))"

fun process_groups ::
  "(array2 \<Rightarrow> 'tc \<Rightarrow> error + array2) \<Rightarrow> 'tc config \<Rightarrow> nat list \<Rightarrow>
   (string \<rightharpoonup> array2) \<Rightarrow> (string \<rightharpoonup> entry) \<Rightarrow>
   (error + (string \<rightharpoonup> entry)) \<times> (string \<rightharpoonup> array2)" where
  "process_groups apply_transform config [] raw obs = (Inr obs, raw)"
| "process_groups apply_transform config (g # gs) raw obs =
     (case process_group apply_transform config g raw obs of
        Inl e \<Rightarrow> (Inl e, raw)
      | Inr (raw', obs') \<Rightarrow> process_groups apply_transform config gs raw' obs')"

record observation =
  groups :: "string \<rightharpoonup> array2"
  obs_date_arr :: array1

text \<open>The call returns the observation; the second component is the window as the call
  leaves it, since the buffers are written through the views.\<close>

definition get_obs ::
  "(array2 \<Rightarrow> 'tc \<Rightarrow> error + array2) \<Rightarrow> 'tc config \<Rightarrow> (string \<times> nat) list \<Rightarrow> window \<Rightarrow>
   (error + observation) \<times> window" where
  "get_obs apply_transform config obs_interval raw_data =
     (let feat_group_inds = map fst obs_interval in
      case slice_groups obs_interval feat_group_inds (bufs raw_data) Map.empty of
        Inl e \<Rightarrow> (Inl e, raw_data)
      | Inr obs \<Rightarrow>
          (case process_groups apply_transform config [0..<length feat_group_inds]
                  (bufs raw_data) obs of
             (Inl e, raw') \<Rightarrow> (Inl e, raw_data\<lparr>bufs := raw'\<rparr>)
           | (Inr obs', raw') \<Rightarrow>
               (Inr \<lparr>groups = (\<lambda>k. map_option (read_entry raw') (obs' k)),
                     obs_date_arr = date_arr raw_data\<rparr>,
                raw_data\<lparr>bufs := raw'\<rparr>)))"

subsection \<open>scale_pos_val\<close>

text \<open>
  Modelled from the spec: \<^verbatim>\<open>releat.data.simple.stats.apply_log_tail\<close> is not under
  src/. Section 4.3 of the spec: \<open>log_tail\<close> is the identity below the threshold and
  applies a sign-preserving logarithmic compression above it, with \<open>log_base\<close>
  controlling aggressiveness; deterministic, monotone in magnitude, vectorizable. The
  scalar kernel is the parameter \<open>log_tail\<close>, applied to every element, and
  \<open>log_tail_spec\<close> says of it what the spec says at the arguments \<open>scale_pos_val\<close>
  passes: it keeps the sign, and a larger magnitude never gives a smaller one.
\<close>

definition apply_log_tail ::
  "(real \<Rightarrow> real \<Rightarrow> real \<Rightarrow> real) \<Rightarrow> array1 \<Rightarrow> real \<Rightarrow> real \<Rightarrow> array1" where
  "apply_log_tail log_tail xs thresh log_base = map (\<lambda>x. log_tail x thresh log_base) xs"

definition log_tail_spec :: "(real \<Rightarrow> real \<Rightarrow> real \<Rightarrow> real) \<Rightarrow> bool" where
  "log_tail_spec log_tail =
     ((\<forall>x. sgn (log_tail x 0 (- 1)) = sgn x) \<and>
      (\<forall>x y. \<bar>x\<bar> \<le> \<bar>y\<bar> \<longrightarrow> \<bar>log_tail x 0 (- 1)\<bar> \<le> \<bar>log_tail y 0 (- 1)\<bar>))"

text \<open>
  Modelled from the spec: one kernel that fits the description, the natural logarithm of
  the excess over the threshold.
\<close>

definition ln_tail :: "real \<Rightarrow> real \<Rightarrow> real \<Rightarrow> real" where
  "ln_tail x thresh log_base =
     (if \<bar>x\<bar> \<le> thresh then x else sgn x * (thresh + ln (\<bar>x\<bar> - thresh + 1)))"

text \<open>\<^verbatim>\<open>np.clip(x, lo, hi)\<close>.\<close>

definition clip :: "real \<Rightarrow> real \<Rightarrow> real \<Rightarrow> real" where
  "clip x lo hi = min (max x lo) hi"

definition scale_pos_val :: "(real \<Rightarrow> real \<Rightarrow> real \<Rightarrow> real) \<Rightarrow> array1 \<Rightarrow> array1" where
  "scale_pos_val log_tail pos_val =
     (let thresh = 0;
          log_base = - 1;
          scalar = map (\<lambda>x. x * 0.03) pos_val;
          pos_val = apply_log_tail log_tail pos_val thresh log_base;
          pos_val = map2 (\<lambda>x s. x / 3.0 + s) pos_val scalar
      in map (\<lambda>x. clip x (- 2.0) 2.0) pos_val)"

subsection \<open>sample_price\<close>




subsection \<open>portfolio_to_model_input\<close>

text \<open>\<^verbatim>\<open>row[5::7]\<close>: the entries 5, 12, 19, ... of a row.\<close>

definition from5_every7 :: "'a list \<Rightarrow> 'a list" where
  "from5_every7 row = map (\<lambda>j. row ! j) (filter (\<lambda>j. j mod 7 = 5) [0..<length row])"

text \<open>The width of a matrix with at least one row.\<close>

definition ncols :: "array2 \<Rightarrow> nat" where
  "ncols a = (case a of [] \<Rightarrow> 0 | r # _ \<Rightarrow> length r)"

text \<open>An index past the width of the array is an IndexError, as in numpy.\<close>

definition portfolio_to_model_input ::
  "(real \<Rightarrow> real \<Rightarrow> real \<Rightarrow> real) \<Rightarrow> array2 \<Rightarrow> error + array1" where
  "portfolio_to_model_input log_tail portfolio =
     (let v = map from5_every7 portfolio in
      if ncols v \<le> 1 then Inl IndexError
      else
        let scaled = scale_pos_val log_tail (map (\<lambda>r. r ! 1) v);
            v = map2 (\<lambda>r s. r[1 := s]) v scaled
        in if ncols portfolio \<le> 6 then Inl IndexError
           else
             let v = map2 (\<lambda>r q. r[0 := r ! 0 * (q ! 6) / 2.0]) v portfolio
             in Inr (concat v))"

subsection \<open>get_curr_price\<close>



subsection \<open>Predicates of the statements\<close>





text \<open>Every stored record carries the field of every group.\<close>

definition schema_ok :: "string list \<Rightarrow> client \<Rightarrow> bool" where
  "schema_ok ks c = (\<forall>k b. recs c k = Some b \<longrightarrow> (\<forall>g \<in> set ks. feat b g \<noteq> None))"

definition buffer_of :: "error + window \<Rightarrow> string \<Rightarrow> array2 option" where
  "buffer_of r k = (case r of Inl e \<Rightarrow> None | Inr w \<Rightarrow> bufs w k)"

text \<open>\<open>scale_pos_val\<close> on one value, in the words of section 4.3 of the spec:
  \<open>linear = x * 0.03\<close>, \<open>y = log_tail(x, threshold=0, log_base=-1) / 3.0 + linear\<close>,
  clipped to \<open>[-2.0, 2.0]\<close>.\<close>

definition scale_spec :: "(real \<Rightarrow> real \<Rightarrow> real \<Rightarrow> real) \<Rightarrow> real \<Rightarrow> real" where
  "scale_spec log_tail x =
     (let linear = x * 0.03; y = log_tail x 0 (- 1) / 3.0 + linear in clip y (- 2.0) 2.0)"


text \<open>What one row of the portfolio contributes to the model input: its entries 5, 12,
  19, ..., the second of them scaled and the first multiplied by half of entry 6.\<close>

definition row_input :: "(real \<Rightarrow> real \<Rightarrow> real \<Rightarrow> real) \<Rightarrow> array1 \<Rightarrow> array1" where
  "row_input log_tail r =
     (from5_every7 r)[1 := scale_spec log_tail (from5_every7 r ! 1),
                      0 := from5_every7 r ! 0 * (r ! 6) / 2.0]"

text \<open>
  The treatment of a channel in the words of section 4.2 of the spec: subtract the final
  value of the downsampled channel, divide by the pip, drop the final point, run the
  chain of transform stages in order. \<open>new_channel\<close> is the column that is written back
  for the feature group \<open>g\<close>, whose first feature names the symbol and the stages.
\<close>

definition zero_anchored :: "array1 \<Rightarrow> array1" where
  "zero_anchored ch = map (\<lambda>x. x - last ch) ch"

definition spec_feats ::
  "(array2 \<Rightarrow> 'tc \<Rightarrow> error + array2) \<Rightarrow> real \<Rightarrow> 'tc list \<Rightarrow> array1 \<Rightarrow> error + array2" where
  "spec_feats apply_transform p tcs ch =
     apply_transforms apply_transform
       (map (\<lambda>x. [x]) (butlast (map (\<lambda>x. x / p) (zero_anchored ch)))) tcs"

definition group_feature :: "'tc config \<Rightarrow> nat \<Rightarrow> 'tc simple_feature" where
  "group_feature config g = hd (simple_features (features config ! g))"

definition group_pip :: "'tc config \<Rightarrow> nat \<Rightarrow> real" where
  "group_pip config g =
     pip (symbol_info config ! the (symbol_info_index config (fc_symbol (group_feature config g))))"

definition new_channel ::
  "(array2 \<Rightarrow> 'tc \<Rightarrow> error + array2) \<Rightarrow> 'tc config \<Rightarrow> nat \<Rightarrow> array2 \<Rightarrow> error + array1" where
  "new_channel apply_transform config g ds =
     and_then (spec_feats apply_transform (group_pip config g)
                 (transforms (group_feature config g)) (map hd ds))
       (\<lambda>feats. broadcast_to (length ds - 1) (map hd feats))"

text \<open>The state in which the second loop of \<open>get_obs\<close> starts, for the groups still to
  be processed: an entry under the key of a group, if there is one, is the view of the
  rows \<open>idx g\<close> of the buffer \<open>rows g\<close> under the same key.\<close>

definition views_of ::
  "nat list \<Rightarrow> (nat \<Rightarrow> array2) \<Rightarrow> (nat \<Rightarrow> nat list) \<Rightarrow>
   (string \<rightharpoonup> array2) \<Rightarrow> (string \<rightharpoonup> entry) \<Rightarrow> bool" where
  "views_of gs rows idx raw obs =
     (\<forall>g \<in> set gs. \<forall>e. obs (str g) = Some e \<longrightarrow>
        e = View (str g) (idx g) \<and> raw (str g) = Some (rows g) \<and> distinct (idx g) \<and>
        (\<forall>i \<in> set (idx g). i < length (rows g)))"

text \<open>The array of a group in the observation that a call returned.\<close>

definition group_of :: "error + observation \<Rightarrow> string \<Rightarrow> array2 option" where
  "group_of r k = (case r of Inl e \<Rightarrow> None | Inr ob \<Rightarrow> groups ob k)"

subsection \<open>The scenario of the spec\<close>

text \<open>Section 8 of the spec: eleven ticks 100.0, 100.1, ..., 101.0 stored under the
  indices 0 to 10, one feature group \<^verbatim>\<open>"0"\<close> of one channel, and a pip of 0.0001.\<close>

definition tick_bins :: "real \<Rightarrow> bins" where
  "tick_bins x = \<lparr>feat = [''0'' \<mapsto> [x]], b_date = 0, b_trade_price = [x, x, x, x],
                   b_date_arr = [0, 0, 0]\<rparr>"

definition eurusd :: symbol_spec where
  "eurusd = \<lparr>symbol = ''EURUSD'', pip = 1 / 10000, pip_val = 100, contract_size = 100000,
              currency = ''USD'', commission = 4\<rparr>"

definition tick_config :: "unit config" where
  "tick_config =
     \<lparr>aerospike = \<lparr>namespace = ''test'', set_name = ''ticks''\<rparr>,
      features = [\<lparr>simple_features = [\<lparr>fc_symbol = ''EURUSD'', transforms = []\<rparr>]\<rparr>],
      symbol_info_index = [''EURUSD'' \<mapsto> 0],
      symbol_info = [eurusd]\<rparr>"

definition tick_store :: client where
  "tick_store =
     \<lparr>recs = (\<lambda>(ns, sn, j).
         if ns = ''test'' \<and> sn = ''ticks'' \<and> 0 \<le> j \<and> j \<le> 10
         then Some (tick_bins (100 + real_of_int j / 10)) else None),
      fetched = []\<rparr>"

definition no_transform :: "array2 \<Rightarrow> unit \<Rightarrow> error + array2" where
  "no_transform feats tc = Inr feats"

definition tick_shape :: shape where
  "tick_shape = [(''0'', 10), (''max'', 10)]"


definition demo_shape :: shape where
  "demo_shape = [(''0'', 2), (''max'', 2)]"

text \<open>The window after a backfill of two rows that ends at the index 2.\<close>

definition demo_window :: window where
  "demo_window =
     \<lparr>bufs = [''0'' \<mapsto> [[1001 / 10], [501 / 5]]], date = 0,
      trade_price = [501 / 5, 501 / 5, 501 / 5, 501 / 5], date_arr = [0, 0, 0]\<rparr>"

text \<open>A second instrument, with a pip of 1.0, and a price vector for two symbols.\<close>

definition nd100 :: symbol_spec where
  "nd100 = \<lparr>symbol = ''ND100m'', pip = 1, pip_val = 100, contract_size = 10,
             currency = ''USD'', commission = 10\<rparr>"



definition two_slots :: array2 where
  "two_slots = [[0, 0, 0, 0, 0, 3, 4, 0, 0, 0, 0, 0, 0, 0]]"

text \<open>The window of the scenario after the backfill at index 10: the last ten ticks.\<close>

definition tick_rows :: array2 where
  "tick_rows = [[1001 / 10], [501 / 5], [1003 / 10], [502 / 5], [201 / 2], [503 / 5],
                [1007 / 10], [504 / 5], [1009 / 10], [101]]"

definition tick_window :: window where
  "tick_window = \<lparr>bufs = [''0'' \<mapsto> tick_rows], date = 0,
                   trade_price = [101, 101, 101, 101], date_arr = [0, 0, 0]\<rparr>"

text \<open>Two feature groups of two channels each, on the instrument with a pip of 1.0.\<close>

definition two_group_config :: "unit config" where
  "two_group_config =
     \<lparr>aerospike = \<lparr>namespace = ''test'', set_name = ''ticks''\<rparr>,
      features = [\<lparr>simple_features = [\<lparr>fc_symbol = ''ND100m'', transforms = []\<rparr>]\<rparr>,
                  \<lparr>simple_features = [\<lparr>fc_symbol = ''ND100m'', transforms = []\<rparr>]\<rparr>],
      symbol_info_index = [''ND100m'' \<mapsto> 0],
      symbol_info = [nd100]\<rparr>"

definition two_group_window :: window where
  "two_group_window =
     \<lparr>bufs = [''0'' \<mapsto> [[1, 7], [2, 8], [4, 9]], ''1'' \<mapsto> [[10, 5], [20, 6], [40, 7]]],
      date = 0, trade_price = [0, 0, 0, 0], date_arr = [0, 0, 0]\<rparr>"

section \<open>Properties\<close>

subsection \<open>The window: init_raw_data and update_raw_data\<close>

lemma empty_lists_fold:
  "fold (\<lambda>k m. m(k \<mapsto> [])) ks m0 = (\<lambda>k. if k \<in> set ks then Some [] else m0 k)"
  by (induction ks arbitrary: m0) (auto simp: fun_eq_iff)

lemma empty_lists_apply: "empty_lists ks k = (if k \<in> set ks then Some [] else None)"
  by (simp add: empty_lists_def empty_lists_fold)


lemma append_fields_ok:
  "\<forall>k \<in> set ks. raw k \<noteq> None \<and> feat b k \<noteq> None \<Longrightarrow>
   \<exists>raw'. append_fields b ks raw = Inr raw' \<and> (\<forall>k. raw k \<noteq> None \<longrightarrow> raw' k \<noteq> None)"
proof (induction ks arbitrary: raw)
  case Nil
  then show ?case by simp
next
  case (Cons k ks)
  then obtain rows v where rk: "raw k = Some rows" and fk: "feat b k = Some v" by auto
  have "\<forall>k' \<in> set ks. (raw(k \<mapsto> rows @ [v])) k' \<noteq> None \<and> feat b k' \<noteq> None"
    using Cons.prems by auto
  from Cons.IH [OF this] obtain raw' where
    r: "append_fields b ks (raw(k \<mapsto> rows @ [v])) = Inr raw'"
    and dm: "\<forall>k'. (raw(k \<mapsto> rows @ [v])) k' \<noteq> None \<longrightarrow> raw' k' \<noteq> None" by blast
  have "\<forall>k'. raw k' \<noteq> None \<longrightarrow> raw' k' \<noteq> None"
  proof (intro allI impI)
    fix k' assume "raw k' \<noteq> None"
    then have "(raw(k \<mapsto> rows @ [v])) k' \<noteq> None" by simp
    with dm show "raw' k' \<noteq> None" by blast
  qed
  with r rk fk show ?case by simp
qed


lemma fetch_loop_miss:
  "\<forall>k \<in> set ks. raw k \<noteq> None \<Longrightarrow>
   \<forall>j \<in> set js1. \<exists>b. recs c (key_of a j) = Some b \<and> (\<forall>k \<in> set ks. feat b k \<noteq> None) \<Longrightarrow>
   recs c (key_of a j0) = None \<Longrightarrow>
   fetch_loop a ks (js1 @ j0 # js2) (raw, lb) c =
     (Inl DataUnavailable, c\<lparr>fetched := fetched c @ map (key_of a) (js1 @ [j0])\<rparr>)"
proof (induction js1 arbitrary: raw lb c)
  case Nil
  then show ?case by (simp add: client_get_def key_of_def)
next
  case (Cons j js1)
  from Cons.prems(2) obtain b where rb: "recs c (key_of a j) = Some b"
    and fb: "\<forall>k \<in> set ks. feat b k \<noteq> None" by auto
  from append_fields_ok [of ks raw b] Cons.prems(1) fb obtain raw1 where
    af: "append_fields b ks raw = Inr raw1" and dm: "\<forall>k. raw k \<noteq> None \<longrightarrow> raw1 k \<noteq> None"
    by blast
  let ?c1 = "c\<lparr>fetched := fetched c @ [key_of a j]\<rparr>"
  have d1: "\<forall>k \<in> set ks. raw1 k \<noteq> None" using dm Cons.prems(1) by blast
  have p2: "\<forall>j \<in> set js1. \<exists>b. recs ?c1 (key_of a j) = Some b \<and> (\<forall>k \<in> set ks. feat b k \<noteq> None)"
    using Cons.prems(2) by simp
  have p3: "recs ?c1 (key_of a j0) = None" using Cons.prems(3) by simp
  from Cons.IH [OF d1 p2 p3] rb af
  show ?case by (simp add: client_get_def key_of_def)
qed








lemma fetch_loop_fetched:
  "fetch_loop a ks js (raw, lb) c = (Inr st, c') \<Longrightarrow>
   fetched c' = fetched c @ map (key_of a) js \<and> (\<forall>j \<in> set js. recs c (key_of a j) \<noteq> None)"
proof (induction js arbitrary: raw lb c)
  case Nil
  then show ?case by auto
next
  case (Cons j js)
  let ?k = "key_of a j"
  let ?c1 = "c\<lparr>fetched := fetched c @ [?k]\<rparr>"
  from Cons.prems obtain b raw1 where rb: "recs c ?k = Some b"
    and rest: "fetch_loop a ks js (raw1, Some b) ?c1 = (Inr st, c')"
    by (auto simp: client_get_def split: option.splits sum.splits)
  from Cons.IH [OF rest] rb show ?case by (auto simp: key_of_def)
qed

lemma init_raw_data_fetched:
  assumes mx: "map_of sh ''max'' = Some m" and r: "init_raw_data a c sh i = (Inr w, c')"
  shows "fetched c' = fetched c @ map (key_of a) [i - m..i] \<and>
         (\<forall>j \<in> set [i - m..i]. recs c (key_of a j) \<noteq> None)"
proof -
  from r mx obtain st where
    "fetch_loop a (feat_group_inds sh) [i - m..i] (empty_lists (feat_group_inds sh), None) c
       = (Inr st, c')"
    by (auto simp: init_raw_data_def Let_def split: prod.splits sum.splits option.splits)
  from fetch_loop_fetched [OF this] show ?thesis .
qed

lemma init_raw_data_miss:
  assumes mx: "map_of sh ''max'' = Some m"
    and sc: "schema_ok (feat_group_inds sh) c"
    and lo: "i - m \<le> j0" and hi: "j0 \<le> i"
    and miss: "recs c (key_of a j0) = None"
    and before: "\<forall>j. i - m \<le> j \<and> j < j0 \<longrightarrow> recs c (key_of a j) \<noteq> None"
  shows "init_raw_data a c sh i =
           (Inl DataUnavailable, c\<lparr>fetched := fetched c @ map (key_of a) [i - m..j0]\<rparr>)"
proof -
  let ?ks = "feat_group_inds sh"
  have sp: "[i - m..i] = [i - m..j0 - 1] @ j0 # [j0 + 1..i]"
    using lo hi by (rule upto_split3)
  have e: "\<forall>k \<in> set ?ks. empty_lists ?ks k \<noteq> None" by (simp add: empty_lists_apply)
  have pre: "\<forall>j \<in> set [i - m..j0 - 1].
      \<exists>b. recs c (key_of a j) = Some b \<and> (\<forall>k \<in> set ?ks. feat b k \<noteq> None)"
  proof
    fix j assume "j \<in> set [i - m..j0 - 1]"
    then have "i - m \<le> j \<and> j < j0" by auto
    with before obtain b where b: "recs c (key_of a j) = Some b" by auto
    with sc have "\<forall>k \<in> set ?ks. feat b k \<noteq> None"
      unfolding schema_ok_def by blast
    with b show "\<exists>b. recs c (key_of a j) = Some b \<and> (\<forall>k \<in> set ?ks. feat b k \<noteq> None)"
      by blast
  qed
  have up: "[i - m..j0 - 1] @ [j0] = [i - m..j0]"
    using lo by (simp add: upto_rec2)
  from fetch_loop_miss [OF e pre miss, of "[j0 + 1..i]" None]
  have "fetch_loop a ?ks [i - m..i] (empty_lists ?ks, None) c =
          (Inl DataUnavailable, c\<lparr>fetched := fetched c @ map (key_of a) [i - m..j0]\<rparr>)"
    using sp up by simp
  then show ?thesis using mx by (simp add: init_raw_data_def Let_def)
qed

lemma update_raw_data_fetched:
  "fetched (snd (update_raw_data a c sh w i)) = fetched c @ [key_of a i]"
  by (simp add: update_raw_data_def Let_def client_get_def key_of_def
        split: option.splits sum.splits)

lemma update_raw_data_miss:
  "recs c (key_of a i) = None \<Longrightarrow> fst (update_raw_data a c sh w i) = Inl DataUnavailable"
  by (simp add: update_raw_data_def Let_def client_get_def key_of_def)

lemmas tick_defs = init_raw_data_def update_raw_data_def Let_def feat_group_inds_def
  empty_lists_def client_get_def tick_store_def tick_config_def tick_bins_def np_array_def
  last_n_def vstack_def buffer_of_def key_of_def

lemma demo_init:
  "init_raw_data tick_config tick_store demo_shape 2 =
     (Inr demo_window,
      tick_store\<lparr>fetched := [(''test'', ''ticks'', 0), (''test'', ''ticks'', 1),
                                (''test'', ''ticks'', 2)]\<rparr>)"
  by (simp add: tick_defs demo_shape_def demo_window_def upto_rec1)



lemma tick_store_schema: "schema_ok [''0''] tick_store"
  by (auto simp: schema_ok_def tick_store_def tick_bins_def split: if_splits)

subsection \<open>scale_pos_val\<close>

lemma scale_pos_val_map: "scale_pos_val lt xs = map (scale_spec lt) xs"
  by (simp add: scale_pos_val_def scale_spec_def apply_log_tail_def Let_def zip_map_map
        zip_same_conv_map)

lemma clip_range: "- 2 \<le> clip x (- 2) 2 \<and> clip x (- 2) 2 \<le> 2"
  by (simp add: clip_def)

lemma abs_clip: "\<bar>clip x (- 2) 2\<bar> = min \<bar>x\<bar> 2"
  by (simp add: clip_def min_def max_def abs_if)

lemma sgn_same_abs_add:
  fixes a b :: real
  assumes "sgn a = sgn b"
  shows "\<bar>a / 3 + b * 3 / 100\<bar> = \<bar>a\<bar> / 3 + \<bar>b\<bar> * 3 / 100"
proof -
  consider "b = 0" | "0 < b" | "b < 0" by linarith
  then show ?thesis
  proof cases
    case 1
    with assms have "a = 0" by (simp add: sgn_zero_iff)
    with 1 show ?thesis by simp
  next
    case 2
    with assms have "sgn a = 1" by simp
    then have "0 < a" by (simp add: sgn_1_pos)
    with 2 show ?thesis by simp
  next
    case 3
    with assms have "sgn a = - 1" by simp
    then have "a < 0" by (simp add: sgn_1_neg)
    with 3 show ?thesis by simp
  qed
qed

lemma scale_spec_abs:
  assumes "log_tail_spec lt"
  shows "\<bar>scale_spec lt x\<bar> = min (\<bar>lt x 0 (- 1)\<bar> / 3 + \<bar>x\<bar> * 3 / 100) 2"
proof -
  from assms have "sgn (lt x 0 (- 1)) = sgn x" by (simp add: log_tail_spec_def)
  from sgn_same_abs_add [OF this] show ?thesis
    by (simp add: scale_spec_def Let_def abs_clip)
qed

lemma scale_spec_zero:
  assumes "log_tail_spec lt"
  shows "scale_spec lt 0 = 0"
proof -
  from assms have "sgn (lt 0 0 (- 1)) = sgn (0::real)" unfolding log_tail_spec_def by blast
  then have "lt 0 0 (- 1) = 0" by (simp add: sgn_zero_iff)
  then show ?thesis by (simp add: scale_spec_def clip_def)
qed

lemma scale_spec_mono:
  assumes s: "log_tail_spec lt" and le: "\<bar>x\<bar> \<le> \<bar>y\<bar>"
  shows "\<bar>scale_spec lt x\<bar> \<le> \<bar>scale_spec lt y\<bar>"
proof -
  from s le have "\<bar>lt x 0 (- 1)\<bar> \<le> \<bar>lt y 0 (- 1)\<bar>" unfolding log_tail_spec_def by blast
  with le have "\<bar>lt x 0 (- 1)\<bar> / 3 + \<bar>x\<bar> * 3 / 100 \<le> \<bar>lt y 0 (- 1)\<bar> / 3 + \<bar>y\<bar> * 3 / 100"
    by simp
  then show ?thesis by (simp add: scale_spec_abs [OF s] min_def)
qed

lemma ln_tail_spec: "log_tail_spec ln_tail"
  unfolding log_tail_spec_def
proof (intro conjI allI impI)
  fix x :: real
  show "sgn (ln_tail x 0 (- 1)) = sgn x"
  proof (cases "x = 0")
    case True then show ?thesis by (simp add: ln_tail_def)
  next
    case False
    then have "0 < ln (\<bar>x\<bar> + 1)" by (simp add: ln_gt_zero)
    with False show ?thesis by (simp add: ln_tail_def sgn_mult)
  qed
next
  fix x y :: real
  assume le: "\<bar>x\<bar> \<le> \<bar>y\<bar>"
  have a: "\<bar>ln_tail z 0 (- 1)\<bar> = ln (\<bar>z\<bar> + 1)" for z :: real
    by (cases "z = 0") (simp_all add: ln_tail_def abs_mult abs_sgn_eq)
  from le show "\<bar>ln_tail x 0 (- 1)\<bar> \<le> \<bar>ln_tail y 0 (- 1)\<bar>"
    by (simp add: a)
qed

subsection \<open>sample_price and get_curr_price\<close>
















subsection \<open>portfolio_to_model_input\<close>

lemma length_filter_mod7:
  "length (filter (\<lambda>j. j mod 7 = 5) [0..<w]) = (w + 1) div 7"
proof (induction w)
  case 0
  then show ?case by simp
next
  case (Suc w)
  have "(Suc w + 1) div 7 = (w + 1) div 7 + (if w mod 7 = 5 then 1 else 0)"
    by presburger
  with Suc show ?case by simp
qed

lemma length_from5_every7: "length (from5_every7 row) = (length row + 1) div 7"
  by (simp add: from5_every7_def length_filter_mod7)

lemma filter_mod7_mult: "filter (\<lambda>j. j mod 7 = 5) [0..<7 * m] = map (\<lambda>j. 7 * j + 5) [0..<m]"
proof (induction m)
  case 0
  then show ?case by simp
next
  case (Suc m)
  have "[0..<7 * m + 7] = [0..<7 * m] @ [7 * m..<7 * m + 7]"
    by (rule upt_add_eq_append) simp
  moreover have "[7 * m..<7 * m + 7] = map (\<lambda>i. i + 7 * m) [0..<7]"
    by (simp add: map_add_upt add.commute)
  ultimately have "[0..<7 * Suc m] = [0..<7 * m] @ map (\<lambda>i. i + 7 * m) [0..<7]"
    by (simp add: add.commute)
  moreover have "filter (\<lambda>j. j mod 7 = 5) (map (\<lambda>i. i + 7 * m) [0..<7]) =
      map (\<lambda>i. i + 7 * m) (filter (\<lambda>i. i mod 7 = 5) [0..<7])"
    by (simp add: filter_map comp_def)
  moreover have "filter (\<lambda>i. i mod 7 = 5) [0..<7] = [5::nat]"
    by (simp add: upt_rec)
  ultimately have "filter (\<lambda>j. j mod 7 = 5) [0..<7 * Suc m] =
      filter (\<lambda>j. j mod 7 = 5) [0..<7 * m] @ [7 * m + 5]"
    by (simp add: add.commute)
  with Suc show ?case by simp
qed

lemma from5_every7_mult:
  "length row = 7 * m \<Longrightarrow> from5_every7 row = map (\<lambda>j. row ! (7 * j + 5)) [0..<m]"
  by (simp add: from5_every7_def filter_mod7_mult)

lemma ncols_map_from5:
  assumes "portfolio \<noteq> []" and "\<forall>r \<in> set portfolio. length r = w"
  shows "ncols (map from5_every7 portfolio) = (w + 1) div 7" and "ncols portfolio = w"
  using assms by (cases portfolio; simp add: ncols_def length_from5_every7)+

lemma map2_same: "map2 f (map g xs) (map h xs) = map (\<lambda>x. f (g x) (h x)) xs"
  by (induction xs) simp_all

lemma map2_right: "map2 f (map g xs) xs = map (\<lambda>x. f (g x) x) xs"
  by (induction xs) simp_all

lemma portfolio_to_model_input_Inr:
  assumes ne: "portfolio \<noteq> []" and w: "\<forall>r \<in> set portfolio. length r = w" and w13: "13 \<le> w"
  shows "portfolio_to_model_input lt portfolio = Inr (concat (map (row_input lt) portfolio))"
proof -
  have n1: "\<not> ncols (map from5_every7 portfolio) \<le> 1"
    using ncols_map_from5 (1) [OF ne w] w13 by simp
  have n2: "\<not> ncols portfolio \<le> 6" using ncols_map_from5 (2) [OF ne w] w13 by simp
  have a: "map2 (\<lambda>r s. r[1 := s]) (map from5_every7 portfolio)
             (scale_pos_val lt (map (\<lambda>r. r ! 1) (map from5_every7 portfolio))) =
           map (\<lambda>r. (from5_every7 r)[1 := scale_spec lt (from5_every7 r ! 1)]) portfolio"
    by (simp add: scale_pos_val_map map2_same comp_def)
  have b: "map2 (\<lambda>r q. r[0 := r ! 0 * (q ! 6) / 2])
             (map (\<lambda>r. (from5_every7 r)[1 := scale_spec lt (from5_every7 r ! 1)]) portfolio)
             portfolio =
           map (row_input lt) portfolio"
    by (simp add: map2_right row_input_def)
  show ?thesis
    unfolding portfolio_to_model_input_def Let_def using n1 n2 a b by simp
qed


lemma length_row_input: "length (row_input lt r) = (length r + 1) div 7"
  by (simp add: row_input_def length_from5_every7)

lemma length_concat_const:
  "\<forall>x \<in> set xs. length (f x) = n \<Longrightarrow> length (concat (map f xs)) = length xs * n"
  by (induction xs) simp_all

lemma row_input_mult:
  assumes l: "length r = 7 * m" and m: "2 \<le> m"
  shows "row_input lt r =
           (r ! 5 * (r ! 6) / 2) # scale_spec lt (r ! 12) # map (\<lambda>j. r ! (7 * j + 5)) [2..<m]"
proof -
  from m have "[0..<m] = 0 # 1 # [2..<m]"
    by (metis One_nat_def Suc_1 Suc_le_lessD less_le_trans upt_conv_Cons zero_less_Suc
          order_less_le_trans pos2)
  then show ?thesis
    unfolding row_input_def from5_every7_mult [OF l] by simp
qed

lemma from5_two_slots: "from5_every7 [0, 0, 0, 0, 0, 3, 4, 0, 0, 0, 0, 0, 0, 0::real] = [3, 0]"
  by (simp add: from5_every7_def upt_rec)

lemma two_slots_eval: "portfolio_to_model_input ln_tail two_slots = Inr [6, 0]"
  by (simp add: portfolio_to_model_input_def two_slots_def from5_two_slots ncols_def
        scale_pos_val_map scale_spec_def ln_tail_def clip_def Let_def)

subsection \<open>get_obs\<close>

lemma and_then_Inr: "and_then m f = Inr y \<longleftrightarrow> (\<exists>x. m = Inr x \<and> f x = Inr y)"
  by (cases m) (simp_all add: and_then_def)

lemma item_Inr: "item xs i = Inr x \<longleftrightarrow> i < length xs \<and> x = xs ! i"
  by (auto simp: item_def)

lemma lookup_Inr: "lookup d k = Inr v \<longleftrightarrow> d k = Some v"
  by (auto simp: lookup_def split: option.splits)

lemma col0_Inr: "col0 a = Inr vs \<longleftrightarrow> [] \<notin> set a \<and> vs = map hd a"
  by (auto simp: col0_def)

lemma broadcast_to_length: "broadcast_to m vs = Inr col \<Longrightarrow> length col = m"
  by (auto simp: broadcast_to_def split: if_splits)

lemma str_0: "str 0 = ''0''"
  by (simp add: str.simps [of 0] digit_char_def)

lemma str_1: "str (Suc 0) = ''1''"
  by (simp add: str.simps [of "Suc 0"] digit_char_def)

lemma set_col0_length: "length (set_col0 rows idx vs) = length rows"
  by (induction rows idx vs rule: set_col0.induct) simp_all

lemma set_col0_nth_notin: "j \<notin> set idx \<Longrightarrow> set_col0 rows idx vs ! j = rows ! j"
  by (induction rows idx vs rule: set_col0.induct) auto

lemma set_col0_read:
  "distinct idx \<Longrightarrow> \<forall>i \<in> set idx. i < length rows \<Longrightarrow> length vs = length idx \<Longrightarrow>
   map (\<lambda>i. set_col0 rows idx vs ! i) idx = with_col0 vs (map (\<lambda>i. rows ! i) idx)"
proof (induction idx arbitrary: rows vs)
  case Nil
  then show ?case by (simp add: with_col0_def)
next
  case (Cons i idx)
  then obtain v vs' where vs: "vs = v # vs'" by (cases vs) auto
  let ?rows = "rows[i := v # tl (rows ! i)]"
  from Cons.prems have ni: "i \<notin> set idx" and d: "distinct idx" and il: "i < length rows"
    and r: "\<forall>j \<in> set idx. j < length ?rows" and l: "length vs' = length idx"
    by (auto simp: vs)
  have h: "set_col0 ?rows idx vs' ! i = v # tl (rows ! i)"
    using set_col0_nth_notin [OF ni] il by simp
  have "map (\<lambda>j. ?rows ! j) idx = map (\<lambda>j. rows ! j) idx"
  proof (intro map_cong refl)
    fix j assume "j \<in> set idx"
    with ni have "i \<noteq> j" by auto
    then show "?rows ! j = rows ! j" by simp
  qed
  with Cons.IH [OF d r l]
  have t: "map (\<lambda>j. set_col0 ?rows idx vs' ! j) idx = with_col0 vs' (map (\<lambda>j. rows ! j) idx)"
    by simp
  show ?case using h t by (simp add: vs with_col0_def)
qed

lemma every_nth_props: "distinct (every_nth s n) \<and> (\<forall>i \<in> set (every_nth s n). i < n)"
  by (simp add: every_nth_def)

lemma distinct_tl: "distinct xs \<Longrightarrow> distinct (tl xs)"
  by (cases xs) simp_all

lemma set_tl_subset: "x \<in> set (tl xs) \<Longrightarrow> x \<in> set xs"
  by (cases xs) simp_all

lemma digit_char_inj: "d < 10 \<Longrightarrow> e < 10 \<Longrightarrow> digit_char d = digit_char e \<Longrightarrow> d = e"
proof -
  assume a: "d < 10" "e < 10" "digit_char d = digit_char e"
  have "distinct ''0123456789''" by simp
  moreover have "length ''0123456789'' = 10" by simp
  ultimately show ?thesis
    using a nth_eq_iff_index_eq [of "''0123456789''" d e] by (simp add: digit_char_def)
qed

lemma str_length_ge2: "10 \<le> n \<Longrightarrow> 2 \<le> length (str n)"
proof -
  assume "10 \<le> n"
  then have "str n = str (n div 10) @ [digit_char (n mod 10)]" by (simp add: str.simps [of n])
  moreover have "str (n div 10) \<noteq> []" by (simp add: str.simps [of "n div 10"])
  ultimately show ?thesis by (cases "str (n div 10)") simp_all
qed

lemma str_inj: "str n = str m \<Longrightarrow> n = m"
proof (induction n arbitrary: m rule: str.induct)
  case (1 n)
  show ?case
  proof (cases "n < 10")
    case True
    then have sn: "str n = [digit_char n]" by (simp add: str.simps [of n])
    show ?thesis
    proof (cases "m < 10")
      case m: True
      then have "str m = [digit_char m]" by (simp add: str.simps [of m])
      with sn "1.prems" have "digit_char n = digit_char m" by simp
      from digit_char_inj [OF True m this] show ?thesis .
    next
      case False
      then have "2 \<le> length (str m)" by (intro str_length_ge2) simp
      with sn "1.prems" show ?thesis by simp
    qed
  next
    case False
    then have sn: "str n = str (n div 10) @ [digit_char (n mod 10)]"
      by (simp add: str.simps [of n])
    show ?thesis
    proof (cases "m < 10")
      case True
      then have "str m = [digit_char m]" by (simp add: str.simps [of m])
      moreover from False have "2 \<le> length (str n)" by (intro str_length_ge2) simp
      ultimately show ?thesis using "1.prems" by simp
    next
      case m: False
      then have "str m = str (m div 10) @ [digit_char (m mod 10)]"
        by (simp add: str.simps [of m])
      with sn "1.prems" have e: "str (n div 10) = str (m div 10)"
        and d: "digit_char (n mod 10) = digit_char (m mod 10)" by simp_all
      from "1.IH" [OF False e] have "n div 10 = m div 10" .
      moreover from digit_char_inj [OF _ _ d] have "n mod 10 = m mod 10" by simp
      ultimately show ?thesis by (metis div_mult_mod_eq)
    qed
  qed
qed

lemma slice_groups_Inr:
  "slice_groups oi ks raw obs0 = Inr obs \<Longrightarrow>
   (\<forall>k. obs k = (if k \<in> set ks
                  then Some (View k (every_nth (the (map_of oi k)) (length (the (raw k)))))
                  else obs0 k)) \<and>
   (\<forall>k \<in> set ks. raw k \<noteq> None \<and> map_of oi k \<noteq> None \<and> the (map_of oi k) \<noteq> 0)"
proof (induction ks arbitrary: obs0)
  case Nil
  then show ?case by simp
next
  case (Cons k ks)
  from Cons.prems obtain rows s where rk: "raw k = Some rows" and sk: "map_of oi k = Some s"
    and s0: "s \<noteq> 0"
    and rest: "slice_groups oi ks raw (obs0(k \<mapsto> View k (every_nth s (length rows)))) = Inr obs"
    by (auto simp: and_then_Inr lookup_Inr split: if_splits)
  from Cons.IH [OF rest] rk sk s0 show ?case by auto
qed

lemma read_entry_View:
  "raw b = Some rows \<Longrightarrow> read_entry raw (View b idx) = map (\<lambda>i. rows ! i) idx"
  by (simp add: read_entry_def)

lemma map_tl: "map f (tl xs) = tl (map f xs)"
  by (cases xs) simp_all

lemma process_group_View:
  assumes e: "obs (str g) = Some (View b idx)" and rb: "raw b = Some rows"
    and d: "distinct idx" and r: "\<forall>i \<in> set idx. i < length rows"
    and ok: "process_group tf cfg g raw obs = Inr (raw', obs')"
  shows "\<exists>col. new_channel tf cfg g (map (\<lambda>i. rows ! i) idx) = Inr col \<and>
           raw' = raw(b \<mapsto> set_col0 rows (tl idx) col) \<and>
           obs' = obs(str g \<mapsto> Owned (with_col0 col (tl (map (\<lambda>i. rows ! i) idx))))"
proof -
  let ?ds = "map (\<lambda>i. rows ! i) idx"
  let ?fc = "group_feature cfg g"
  from ok e obtain feats0 feats1 si feats2 feats3 vs col where
    g: "g < length (features cfg)"
    and f0: "simple_features (features cfg ! g) \<noteq> []"
    and c0: "col0 (read_entry raw (View b idx)) = Inr feats0"
    and sl: "sub_last feats0 = Inr feats1"
    and si: "symbol_info_index cfg (fc_symbol ?fc) = Some si"
    and sil: "si < length (symbol_info cfg)"
    and dp: "div_pip (butlast feats1) (pip (symbol_info cfg ! si)) = Inr feats2"
    and ap: "apply_transforms tf (map (\<lambda>x. [x]) feats2) (transforms ?fc) = Inr feats3"
    and c1: "col0 feats3 = Inr vs"
    and bc: "broadcast_to (length (read_entry raw (drop_first (View b idx)))) vs = Inr col"
    and res: "(case write_col0 raw (drop_first (View b idx)) col of
                (raw'', e2) \<Rightarrow> Inr (raw'', obs(str g \<mapsto> Owned (read_entry raw'' e2)))) =
              (Inr (raw', obs') :: error + (string \<rightharpoonup> array2) \<times> (string \<rightharpoonup> entry))"
    unfolding process_group_def and_then_Inr item_Inr lookup_Inr Let_def group_feature_def
    by (auto simp: hd_conv_nth)
  from c0 rb have feats0: "feats0 = map hd ?ds" by (simp add: col0_Inr read_entry_View)
  from sl have feats1: "feats1 = zero_anchored feats0"
    by (auto simp: sub_last_def zero_anchored_def split: if_splits)
  from dp have feats2: "feats2 = map (\<lambda>x. x / group_pip cfg g) (butlast feats1)"
    by (auto simp: div_pip_def group_pip_def si split: if_splits)
  have sp: "spec_feats tf (group_pip cfg g) (transforms ?fc) (map hd ?ds) = Inr feats3"
    using ap by (simp add: spec_feats_def feats0 feats1 feats2 map_butlast)
  from c1 have vs: "vs = map hd feats3" by (simp add: col0_Inr)
  have len: "length (read_entry raw (drop_first (View b idx))) = length ?ds - 1"
    using rb by (simp add: drop_first_def read_entry_View)
  have nc: "new_channel tf cfg g ?ds = Inr col"
    using sp bc by (simp add: new_channel_def and_then_def vs len)
  from broadcast_to_length [OF bc] have lc: "length col = length (tl idx)"
    using len by simp
  have d': "distinct (tl idx)" using d by (rule distinct_tl)
  have r': "\<forall>i \<in> set (tl idx). i < length rows" using r set_tl_subset by fastforce
  have rd: "map (\<lambda>i. set_col0 rows (tl idx) col ! i) (tl idx) =
            with_col0 col (tl ?ds)"
    using set_col0_read [OF d' r' lc] by (simp add: map_tl)
  from res rb have "raw' = raw(b \<mapsto> set_col0 rows (tl idx) col)"
    and "obs' = obs(str g \<mapsto> Owned (read_entry (raw(b \<mapsto> set_col0 rows (tl idx) col))
                                          (View b (tl idx))))"
    by (auto simp: write_col0_def drop_first_def)
  with rd nc show ?thesis by (simp add: read_entry_View)
qed

lemma process_groups_Inr:
  assumes "distinct gs" and "views_of gs rows idx raw obs"
    and "process_groups tf cfg gs raw obs = (Inr obs', raw')"
  shows "(\<forall>g \<in> set gs. \<exists>col.
            new_channel tf cfg g (map (\<lambda>i. rows g ! i) (idx g)) = Inr col \<and>
            obs' (str g) = Some (Owned (with_col0 col (tl (map (\<lambda>i. rows g ! i) (idx g))))) \<and>
            raw' (str g) = Some (set_col0 (rows g) (tl (idx g)) col)) \<and>
         (\<forall>k. k \<notin> str ` set gs \<longrightarrow> obs' k = obs k \<and> raw' k = raw k)"
  using assms
proof (induction gs arbitrary: raw obs)
  case Nil
  then show ?case by simp
next
  case (Cons g gs)
  from Cons.prems(3) obtain raw1 obs1 where
    pg: "process_group tf cfg g raw obs = Inr (raw1, obs1)"
    and rest: "process_groups tf cfg gs raw1 obs1 = (Inr obs', raw')"
    by (auto split: sum.splits)
  from pg obtain e where e: "obs (str g) = Some e"
    unfolding process_group_def and_then_Inr lookup_Inr by blast
  with Cons.prems(2) have v: "e = View (str g) (idx g)" "raw (str g) = Some (rows g)"
    "distinct (idx g)" "\<forall>i \<in> set (idx g). i < length (rows g)"
    unfolding views_of_def by auto
  let ?ds = "map (\<lambda>i. rows g ! i) (idx g)"
  from process_group_View [OF e [unfolded v(1)] v(2) v(3) v(4) pg] obtain col where
    nc: "new_channel tf cfg g ?ds = Inr col"
    and raw1: "raw1 = raw(str g \<mapsto> set_col0 (rows g) (tl (idx g)) col)"
    and obs1: "obs1 = obs(str g \<mapsto> Owned (with_col0 col (tl ?ds)))"
    by blast
  from Cons.prems(1) have dg: "distinct gs" and ng: "g \<notin> set gs" by auto
  have ne: "\<forall>g' \<in> set gs. str g' \<noteq> str g"
    using ng str_inj by blast
  have v1: "views_of gs rows idx raw1 obs1"
    using Cons.prems(2) ne unfolding views_of_def raw1 obs1 by auto
  from Cons.IH [OF dg v1 rest]
  have ih1: "\<forall>g' \<in> set gs. \<exists>col.
            new_channel tf cfg g' (map (\<lambda>i. rows g' ! i) (idx g')) = Inr col \<and>
            obs' (str g') = Some (Owned (with_col0 col (tl (map (\<lambda>i. rows g' ! i) (idx g'))))) \<and>
            raw' (str g') = Some (set_col0 (rows g') (tl (idx g')) col)"
    and ih2: "\<forall>k. k \<notin> str ` set gs \<longrightarrow> obs' k = obs1 k \<and> raw' k = raw1 k"
    by blast+
  have sg: "str g \<notin> str ` set gs" using ne by auto
  with ih2 have here: "obs' (str g) = Some (Owned (with_col0 col (tl ?ds)))"
    "raw' (str g) = Some (set_col0 (rows g) (tl (idx g)) col)"
    by (simp_all add: raw1 obs1)
  have frame: "\<forall>k. k \<notin> str ` set (g # gs) \<longrightarrow> obs' k = obs k \<and> raw' k = raw k"
    using ih2 by (simp add: raw1 obs1)
  from nc here ih1 frame show ?case by auto
qed

lemma process_group_obs:
  assumes "process_group tf cfg a raw obs = Inr (raw1, obs1)"
  shows "obs (str a) \<noteq> None \<and> (\<exists>y. obs1 = obs(str a \<mapsto> y))"
  using assms unfolding process_group_def and_then_Inr lookup_Inr Let_def case_prod_beta
  by auto

lemma process_groups_entry:
  assumes "g \<in> set gs" and "obs (str g) = None"
    and "process_groups tf cfg gs raw obs = (Inr obs', raw')"
  shows False
  using assms
proof (induction gs arbitrary: raw obs)
  case Nil
  then show ?case by simp
next
  case (Cons a gs)
  from Cons.prems(3) obtain raw1 obs1 where
    pg: "process_group tf cfg a raw obs = Inr (raw1, obs1)"
    and rest: "process_groups tf cfg gs raw1 obs1 = (Inr obs', raw')"
    by (auto split: sum.splits)
  from process_group_obs [OF pg] obtain y where
    oa: "obs (str a) \<noteq> None" and o1: "obs1 = obs(str a \<mapsto> y)" by blast
  from oa Cons.prems(2) have ag: "a \<noteq> g" by auto
  with Cons.prems(1) have gg: "g \<in> set gs" by simp
  from ag str_inj have "str a \<noteq> str g" by blast
  with Cons.prems(2) o1 have "obs1 (str g) = None" by simp
  from Cons.IH [OF gg this rest] show ?case .
qed

lemma get_obs_group:
  assumes ok: "get_obs tf cfg oi w = (Inr ob, w')" and g: "g < length oi"
  shows "\<exists>rows s col.
           bufs w (str g) = Some rows \<and> map_of oi (str g) = Some s \<and> s \<noteq> 0 \<and>
           new_channel tf cfg g (downsample s rows) = Inr col \<and>
           length col = length (downsample s rows) - 1 \<and>
           groups ob (str g) = Some (with_col0 col (tl (downsample s rows))) \<and>
           bufs w' (str g) = Some (set_col0 rows (tl (every_nth s (length rows))) col)"
proof -
  let ?ks = "map fst oi"
  let ?rows = "\<lambda>g. the (bufs w (str g))"
  let ?idx = "\<lambda>g. every_nth (the (map_of oi (str g))) (length (?rows g))"
  from ok obtain obs0 obs' raw' where
    sl: "slice_groups oi ?ks (bufs w) Map.empty = Inr obs0"
    and pg: "process_groups tf cfg [0..<length oi] (bufs w) obs0 = (Inr obs', raw')"
    and ob: "ob = \<lparr>groups = (\<lambda>k. map_option (read_entry raw') (obs' k)),
                   obs_date_arr = date_arr w\<rparr>"
    and w': "w' = w\<lparr>bufs := raw'\<rparr>"
    by (auto simp: get_obs_def Let_def split: sum.splits prod.splits)
  from slice_groups_Inr [OF sl]
  have o0: "\<forall>k. obs0 k = (if k \<in> set ?ks
              then Some (View k (every_nth (the (map_of oi k)) (length (the (bufs w k)))))
              else None)"
    and k0: "\<forall>k \<in> set ?ks. bufs w k \<noteq> None \<and> map_of oi k \<noteq> None \<and> the (map_of oi k) \<noteq> 0"
    by simp_all
  have v: "views_of [0..<length oi] ?rows ?idx (bufs w) obs0"
    unfolding views_of_def
  proof (intro ballI allI impI)
    fix g e assume "obs0 (str g) = Some e"
    with o0 have "str g \<in> set ?ks"
      and "e = View (str g) (?idx g)" by (auto split: if_splits)
    with k0 every_nth_props
    show "e = View (str g) (?idx g) \<and> bufs w (str g) = Some (?rows g) \<and> distinct (?idx g) \<and>
          (\<forall>i \<in> set (?idx g). i < length (?rows g))" by auto
  qed
  from g have gin: "g \<in> set [0..<length oi]" by simp
  from process_groups_Inr [OF distinct_upt v pg] gin obtain col where
    nc: "new_channel tf cfg g (map (\<lambda>i. ?rows g ! i) (?idx g)) = Inr col"
    and og: "obs' (str g) = Some (Owned (with_col0 col (tl (map (\<lambda>i. ?rows g ! i) (?idx g)))))"
    and rg: "raw' (str g) = Some (set_col0 (?rows g) (tl (?idx g)) col)"
    by blast
  from process_groups_entry [OF gin _ pg] have "obs0 (str g) \<noteq> None" by blast
  with o0 have kin: "str g \<in> set ?ks" by (auto split: if_splits)
  with k0 obtain rows s where rows: "bufs w (str g) = Some rows"
    and s: "map_of oi (str g) = Some s" and s0: "s \<noteq> 0" by auto
  have ds: "map (\<lambda>i. ?rows g ! i) (?idx g) = downsample s rows"
    by (simp add: rows s downsample_def)
  from nc have nc': "new_channel tf cfg g (downsample s rows) = Inr col" by (simp add: ds)
  then have lc: "length col = length (downsample s rows) - 1"
    by (auto simp: new_channel_def and_then_Inr dest: broadcast_to_length)
  from og have "groups ob (str g) = Some (with_col0 col (tl (downsample s rows)))"
    by (simp add: ob ds read_entry_def)
  moreover from rg have "bufs w' (str g) = Some (set_col0 rows (tl (every_nth s (length rows))) col)"
    by (simp add: w' rows s)
  ultimately show ?thesis using rows s s0 nc' lc by blast
qed

lemma and_then_Inr_simp: "and_then (Inr x) f = f x"
  by (simp add: and_then_def)

lemma and_then_Inl_simp: "and_then (Inl e) f = Inl e"
  by (simp add: and_then_def)

lemma and_then_weak_cong: "m = m' \<Longrightarrow> and_then m f = and_then m' f"
  by simp

lemmas obs_defs = get_obs_def process_group_def Let_def and_then_Inr_simp and_then_Inl_simp
  item_def lookup_def
  col0_def read_entry_def drop_first_def write_col0_def with_col0_def broadcast_to_def
  sub_last_def div_pip_def every_nth_def str_0 str_1 no_transform_def group_of_def

lemma tick_init: "fst (init_raw_data tick_config tick_store tick_shape 10) = Inr tick_window"
  by (simp add: tick_defs tick_shape_def tick_window_def tick_rows_def upto_rec1)

lemma tick_obs:
  "get_obs no_transform tick_config [(''0'', 1)] tick_window =
     (Inr \<lparr>groups = [''0'' \<mapsto> [[- 9000], [- 8000], [- 7000], [- 6000], [- 5000], [- 4000],
                              [- 3000], [- 2000], [- 1000]]],
           obs_date_arr = [0, 0, 0]\<rparr>,
      tick_window\<lparr>bufs := [''0'' \<mapsto> [[1001 / 10], [- 9000], [- 8000], [- 7000], [- 6000],
                                       [- 5000], [- 4000], [- 3000], [- 2000], [- 1000]]]\<rparr>)"
  by (simp add: obs_defs tick_window_def tick_rows_def tick_config_def eurusd_def upt_rec
        fun_eq_iff cong: and_then_weak_cong)

lemma two_group_obs:
  "get_obs no_transform two_group_config [(''0'', 1), (''1'', 1)] two_group_window =
     (Inr \<lparr>groups = [''0'' \<mapsto> [[- 3, 8], [- 2, 9]], ''1'' \<mapsto> [[- 30, 6], [- 20, 7]]],
           obs_date_arr = [0, 0, 0]\<rparr>,
      two_group_window\<lparr>bufs := [''0'' \<mapsto> [[1, 7], [- 3, 8], [- 2, 9]],
                                  ''1'' \<mapsto> [[10, 5], [- 30, 6], [- 20, 7]]]\<rparr>)"
  by (simp add: obs_defs two_group_window_def two_group_config_def nd100_def upt_rec
        fun_eq_iff cong: and_then_weak_cong)

lemma with_col0_props:
  assumes "length col = length a"
  shows "length (with_col0 col a) = length a" and "map hd (with_col0 col a) = col"
    and "map tl (with_col0 col a) = map tl a"
  using assms by (induction col a rule: list_induct2; simp add: with_col0_def)+

lemma length_tl_eq: "length (tl xs) = length xs - 1"
  by simp

section \<open>The claims\<close>




text \<open>
  Claim C2, as the code has it. When \<open>get_obs\<close> returns, the array of group \<open>"0"\<close> is
  the downsampled buffer without its first row, with channel 0 replaced by the column
  \<open>new_channel\<close>: the downsampled channel minus its final value, divided by the pip of
  the symbol, without the final point, through the transform chain in order. In the
  scenario of the spec the window after the backfill holds the ten ticks 100.1 to 101.0;
  the downsampled length is 10; the delta series is zero at its last point before the
  drop; its first retained point is \<open>(100.1 - 101.0) / 0.0001 = -9000\<close> and its last
  retained point is \<open>(100.9 - 101.0) / 0.0001 = -1000\<close>.
\<close>

theorem get_obs_primary_channel:
  assumes ok: "get_obs tf cfg oi w = (Inr ob, w')" and n: "0 < length oi"
  shows "(\<exists>rows s col.
            bufs w ''0'' = Some rows \<and> map_of oi ''0'' = Some s \<and>
            new_channel tf cfg 0 (downsample s rows) = Inr col \<and>
            groups ob ''0'' = Some (with_col0 col (tl (downsample s rows)))) \<and>
         fst (init_raw_data tick_config tick_store tick_shape 10) = Inr tick_window \<and>
         bufs tick_window ''0'' = Some tick_rows \<and>
         length (downsample 1 tick_rows) = 10 \<and>
         last (zero_anchored (map hd (downsample 1 tick_rows))) = 0 \<and>
         butlast (map (\<lambda>x. x / pip eurusd) (zero_anchored (map hd (downsample 1 tick_rows)))) =
           [(1001 / 10 - 101) / (1 / 10000), - 8000, - 7000, - 6000, - 5000, - 4000, - 3000,
            - 2000, (1009 / 10 - 101) / (1 / 10000)] \<and>
         group_of (fst (get_obs no_transform tick_config [(''0'', 1)] tick_window)) ''0'' =
           Some [[- 9000], [- 8000], [- 7000], [- 6000], [- 5000], [- 4000], [- 3000],
                 [- 2000], [- 1000]]"
proof -
  from get_obs_group [OF ok n]
  have a: "\<exists>rows s col.
            bufs w ''0'' = Some rows \<and> map_of oi ''0'' = Some s \<and>
            new_channel tf cfg 0 (downsample s rows) = Inr col \<and>
            groups ob ''0'' = Some (with_col0 col (tl (downsample s rows)))"
    unfolding str_0 by blast
  have ds: "downsample 1 tick_rows = tick_rows"
    by (simp add: downsample_def every_nth_def tick_rows_def upt_rec)
  have b: "length (downsample 1 tick_rows) = 10" unfolding ds by (simp add: tick_rows_def)
  have c: "last (zero_anchored (map hd (downsample 1 tick_rows))) = 0"
    unfolding ds by (simp add: tick_rows_def zero_anchored_def)
  have d: "butlast (map (\<lambda>x. x / pip eurusd) (zero_anchored (map hd (downsample 1 tick_rows)))) =
           [(1001 / 10 - 101) / (1 / 10000), - 8000, - 7000, - 6000, - 5000, - 4000, - 3000,
            - 2000, (1009 / 10 - 101) / (1 / 10000)]"
    unfolding ds by (simp add: tick_rows_def zero_anchored_def eurusd_def)
  have e: "group_of (fst (get_obs no_transform tick_config [(''0'', 1)] tick_window)) ''0'' =
           Some [[- 9000], [- 8000], [- 7000], [- 6000], [- 5000], [- 4000], [- 3000],
                 [- 2000], [- 1000]]"
    using tick_obs by (simp add: group_of_def)
  have f: "bufs tick_window ''0'' = Some tick_rows" by (simp add: tick_window_def)
  from a tick_init f b c d e show ?thesis by blast
qed

theorem get_obs_primary_channel_witness:
  "0 < length [(''0'', 1::nat)] \<and>
   fst (get_obs no_transform tick_config [(''0'', 1)] tick_window) =
     Inr \<lparr>groups = [''0'' \<mapsto> [[- 9000], [- 8000], [- 7000], [- 6000], [- 5000], [- 4000],
                              [- 3000], [- 2000], [- 1000]]],
          obs_date_arr = [0, 0, 0]\<rparr> \<and>
   new_channel no_transform tick_config 0 (downsample 1 tick_rows) =
     Inr [- 9000, - 8000, - 7000, - 6000, - 5000, - 4000, - 3000, - 2000, - 1000]"
proof -
  have n: "0 < length [(''0'', 1::nat)]" by simp
  from get_obs_primary_channel [OF tick_obs n] obtain rows s col where
    r: "bufs tick_window ''0'' = Some rows" and s: "map_of [(''0'', 1::nat)] ''0'' = Some s"
    and nc: "new_channel no_transform tick_config 0 (downsample s rows) = Inr col"
    and g: "[''0'' \<mapsto> [[- 9000], [- 8000], [- 7000], [- 6000], [- 5000], [- 4000],
                              [- 3000], [- 2000], [- 1000::real]]] ''0'' =
            Some (with_col0 col (tl (downsample s rows)))"
    by auto
  from r have rows: "rows = tick_rows" by (simp add: tick_window_def)
  from s have s1: "s = 1" by simp
  have ds: "downsample 1 tick_rows = tick_rows"
    by (simp add: downsample_def every_nth_def tick_rows_def upt_rec)
  from nc have l: "length col = length (downsample s rows) - 1"
    by (auto simp: new_channel_def and_then_Inr dest: broadcast_to_length)
  then have l': "length col = length (tl (downsample s rows))" by simp
  from g have "with_col0 col (tl (downsample s rows)) =
      [[- 9000], [- 8000], [- 7000], [- 6000], [- 5000], [- 4000], [- 3000], [- 2000], [- 1000]]"
    by simp
  then have "map hd (with_col0 col (tl (downsample s rows))) =
      [- 9000, - 8000, - 7000, - 6000, - 5000, - 4000, - 3000, - 2000, - 1000]"
    by simp
  with with_col0_props (2) [OF l'] have "col =
      [- 9000, - 8000, - 7000, - 6000, - 5000, - 4000, - 3000, - 2000, - 1000]" by simp
  with nc rows s1 tick_obs n show ?thesis by simp
qed

text \<open>
  The claim as the spec states it has \<open>-(100.9 - 101.0) / 0.0001 = 1000\<close> at the first
  retained point; the code subtracts the final value from every point, so every retained
  point is negative: the first is -9000 and the last is -1000.
\<close>

theorem first_retained_point_counterexample:
  "group_of (fst (get_obs no_transform tick_config [(''0'', 1)] tick_window)) ''0'' =
     Some [[- 9000], [- 8000], [- 7000], [- 6000], [- 5000], [- 4000], [- 3000], [- 2000],
           [- 1000]] \<and>
   (- (1009 / 10 - 101) / (1 / 10000) :: real) = 1000 \<and>
   (- 9000 :: real) \<noteq> - (1009 / 10 - 101) / (1 / 10000) \<and>
   (- 1000 :: real) \<noteq> - (1009 / 10 - 101) / (1 / 10000)"
  using tick_obs by (simp add: group_of_def)

text \<open>
  Claim C3 asks that \<open>get_obs\<close> leaves the window as it was. The slices
  \<^verbatim>\<open>raw_data[k][::s]\<close> and \<^verbatim>\<open>obs[k][1:]\<close> are views of the window buffer, and
  \<^verbatim>\<open>obs[k][:, 0] = feats[:, 0]\<close> writes through them before \<^verbatim>\<open>astype\<close> copies: in the
  scenario of the spec, channel 0 of the rows 1 to 9 of the buffer holds the transformed
  deltas after the call.
\<close>

theorem get_obs_overwrites_window:
  "bufs tick_window ''0'' =
     Some [[1001 / 10], [501 / 5], [1003 / 10], [502 / 5], [201 / 2], [503 / 5],
           [1007 / 10], [504 / 5], [1009 / 10], [101]] \<and>
   bufs (snd (get_obs no_transform tick_config [(''0'', 1)] tick_window)) ''0'' =
     Some [[1001 / 10], [- 9000], [- 8000], [- 7000], [- 6000], [- 5000], [- 4000],
           [- 3000], [- 2000], [- 1000]]"
  using tick_obs by (simp add: tick_window_def tick_rows_def)

text \<open>
  Claim C4, as the code has it. The second loop of \<open>get_obs\<close> runs over every feature
  group: when the call returns, for every group index \<open>g\<close> below the number of groups the
  array under \<open>str(g)\<close> is the downsampled buffer without its first row, its channel 0
  replaced by the treated column of that group, and every other channel as it is in the
  downsampled buffer.
\<close>

theorem get_obs_every_group:
  assumes ok: "get_obs tf cfg oi w = (Inr ob, w')" and g: "g < length oi"
  shows "\<exists>rows s col out.
           bufs w (str g) = Some rows \<and> map_of oi (str g) = Some s \<and>
           new_channel tf cfg g (downsample s rows) = Inr col \<and>
           groups ob (str g) = Some out \<and>
           out = with_col0 col (tl (downsample s rows)) \<and>
           length out = length (downsample s rows) - 1 \<and>
           map hd out = col \<and>
           map tl out = map tl (tl (downsample s rows))"
proof -
  from get_obs_group [OF ok g] obtain rows s col where
    a: "bufs w (str g) = Some rows" "map_of oi (str g) = Some s"
    "new_channel tf cfg g (downsample s rows) = Inr col"
    "length col = length (downsample s rows) - 1"
    "groups ob (str g) = Some (with_col0 col (tl (downsample s rows)))"
    by blast
  from a(4) have l: "length col = length (tl (downsample s rows))" by simp
  from with_col0_props [OF l] a show ?thesis by simp
qed

theorem get_obs_every_group_witness:
  "(1::nat) < length [(''0'', 1::nat), (''1'', 1)] \<and>
   group_of (fst (get_obs no_transform two_group_config [(''0'', 1), (''1'', 1)]
      two_group_window)) ''1'' = Some [[- 30, 6], [- 20, 7]] \<and>
   bufs two_group_window ''1'' = Some [[10, 5], [20, 6], [40, 7]] \<and>
   map tl [[- 30, 6], [- 20, 7 :: real]] = map tl (tl (downsample 1 [[10, 5], [20, 6], [40, 7]]))"
proof -
  have n: "(1::nat) < length [(''0'', 1::nat), (''1'', 1)]" by simp
  from get_obs_every_group [OF two_group_obs n] obtain rows s col out where
    r: "bufs two_group_window (str 1) = Some rows"
    and s: "map_of [(''0'', 1::nat), (''1'', 1)] (str 1) = Some s"
    and o: "[''0'' \<mapsto> [[- 3, 8], [- 2, 9]], ''1'' \<mapsto> [[- 30, 6], [- 20, 7::real]]] (str 1) = Some out"
    and t: "map tl out = map tl (tl (downsample s rows))"
    by auto
  from r have rows: "rows = [[10, 5], [20, 6], [40, 7]]"
    by (simp add: str_1 two_group_window_def)
  from s have s1: "s = 1" by (simp add: str_1)
  from o have out: "out = [[- 30, 6], [- 20, 7]]" by (simp add: str_1)
  from t have "map tl [[- 30, 6], [- 20, 7 :: real]] =
      map tl (tl (downsample 1 [[10, 5], [20, 6], [40, 7]]))"
    unfolding rows s1 out .
  with n two_group_obs show ?thesis
    by (simp add: group_of_def two_group_window_def)
qed

text \<open>
  The claim as the spec states it has groups other than \<open>"0"\<close> pass through
  downsampling only; with two groups, the array of group \<open>"1"\<close> has lost its first row
  and carries the deltas in channel 0.
\<close>

theorem other_group_counterexample:
  "group_of (fst (get_obs no_transform two_group_config [(''0'', 1), (''1'', 1)]
      two_group_window)) ''1'' = Some [[- 30, 6], [- 20, 7]] \<and>
   bufs two_group_window ''1'' = Some [[10, 5], [20, 6], [40, 7]] \<and>
   downsample 1 [[10, 5], [20, 6], [40, 7 :: real]] = [[10, 5], [20, 6], [40, 7]] \<and>
   [[- 30, 6], [- 20, 7 :: real]] \<noteq> [[10, 5], [20, 6], [40, 7]]"
  using two_group_obs
  by (simp add: group_of_def two_group_window_def downsample_def every_nth_def upt_rec)




text \<open>
  Claim C6, as the code has it. On a portfolio of \<open>K \<ge> 1\<close> rows of width \<open>7M\<close> with
  \<open>M \<ge> 2\<close>, \<open>portfolio_to_model_input\<close> returns, row after row, the entries 5, 12, 19,
  ... of the row, with \<open>scale_pos_val\<close> applied to the second of them (entry 12) and the
  first (entry 5) multiplied by entry 6 and divided by 2: a vector of length \<open>K * M\<close>.
\<close>

theorem portfolio_to_model_input_shape:
  assumes ne: "portfolio \<noteq> []"
    and w: "\<forall>r \<in> set portfolio. length r = 7 * m"
    and m: "2 \<le> m"
  shows "portfolio_to_model_input lt portfolio =
           Inr (concat (map (\<lambda>r. (r ! 5 * (r ! 6) / 2) # scale_spec lt (r ! 12) #
                                   map (\<lambda>j. r ! (7 * j + 5)) [2..<m]) portfolio)) \<and>
         (\<exists>v. portfolio_to_model_input lt portfolio = Inr v \<and> length v = length portfolio * m)"
proof -
  from m have w13: "13 \<le> 7 * m" by simp
  have e: "map (row_input lt) portfolio =
           map (\<lambda>r. (r ! 5 * (r ! 6) / 2) # scale_spec lt (r ! 12) #
                     map (\<lambda>j. r ! (7 * j + 5)) [2..<m]) portfolio"
    using w row_input_mult [OF _ m] by (intro map_cong) auto
  have "(7 * m + 1) div 7 = m" by presburger
  with w have "\<forall>r \<in> set portfolio. length (row_input lt r) = m"
    by (simp add: length_row_input)
  from length_concat_const [OF this]
  have l: "length (concat (map (row_input lt) portfolio)) = length portfolio * m" .
  have r: "portfolio_to_model_input lt portfolio = Inr (concat (map (row_input lt) portfolio))"
    by (rule portfolio_to_model_input_Inr [OF ne w w13])
  from r [unfolded e] l [unfolded e] show ?thesis by blast
qed

theorem portfolio_to_model_input_shape_witness:
  "two_slots \<noteq> [] \<and> (2::nat) \<le> 2 \<and> portfolio_to_model_input ln_tail two_slots = Inr [6, 0] \<and>
   length [6, 0 :: real] = length two_slots * 2"
proof -
  have ne: "two_slots \<noteq> []" by (simp add: two_slots_def)
  have w: "\<forall>r \<in> set two_slots. length r = 7 * 2" by (simp add: two_slots_def)
  from portfolio_to_model_input_shape [OF ne w order_refl, of ln_tail]
  obtain v where "portfolio_to_model_input ln_tail two_slots = Inr v"
    and "length v = length two_slots * 2" by blast
  with two_slots_eval have "length [6, 0 :: real] = length two_slots * 2" by simp
  with ne two_slots_eval show ?thesis by simp
qed

text \<open>
  The claim as the spec states it gives the length \<open>2M\<close>; one row of two slots
  (\<open>K = 1\<close>, \<open>M = 2\<close>) gives two values, not four.
\<close>

theorem portfolio_length_counterexample:
  "portfolio_to_model_input ln_tail two_slots = Inr [6, 0] \<and>
   map length two_slots = [7 * 2] \<and> length two_slots = 1 \<and>
   length [6, 0 :: real] \<noteq> 2 * 2"
  using two_slots_eval by (simp add: two_slots_def)




text \<open>
  Claim C8. With a \<open>log_tail\<close> kernel as the spec describes it (sign-preserving,
  monotone in magnitude), \<open>scale_pos_val\<close> computes, on every element,
  \<open>log_tail(x, 0, -1) / 3.0 + x * 0.03\<close> clipped to \<open>[-2, 2]\<close>; it maps 0 to 0; the
  magnitude of its output never decreases when the magnitude of the input grows; and
  every output lies within \<open>[-2, 2]\<close>.
\<close>

theorem scale_pos_val_properties:
  assumes s: "log_tail_spec lt"
  shows "scale_pos_val lt xs = map (scale_spec lt) xs \<and>
         scale_pos_val lt [0] = [0] \<and>
         (\<forall>x y. \<bar>x\<bar> \<le> \<bar>y\<bar> \<longrightarrow> \<bar>hd (scale_pos_val lt [x])\<bar> \<le> \<bar>hd (scale_pos_val lt [y])\<bar>) \<and>
         (\<forall>y \<in> set (scale_pos_val lt xs). - 2 \<le> y \<and> y \<le> 2)"
proof (intro conjI allI impI ballI)
  show "scale_pos_val lt xs = map (scale_spec lt) xs" by (rule scale_pos_val_map)
  show "scale_pos_val lt [0] = [0]" by (simp add: scale_pos_val_map scale_spec_zero [OF s])
next
  fix x y :: real assume "\<bar>x\<bar> \<le> \<bar>y\<bar>"
  from scale_spec_mono [OF s this]
  show "\<bar>hd (scale_pos_val lt [x])\<bar> \<le> \<bar>hd (scale_pos_val lt [y])\<bar>"
    by (simp add: scale_pos_val_map)
next
  fix y assume "y \<in> set (scale_pos_val lt xs)"
  then obtain x where "y = scale_spec lt x" by (auto simp: scale_pos_val_map)
  then show "- 2 \<le> y" and "y \<le> 2"
    using clip_range [of "lt x 0 (- 1) / 3 + x * 3 / 100"]
    by (simp_all add: scale_spec_def Let_def)
qed

theorem scale_pos_val_properties_witness:
  "log_tail_spec ln_tail \<and> scale_pos_val ln_tail [0] = [0] \<and>
   \<bar>hd (scale_pos_val ln_tail [1])\<bar> \<le> \<bar>hd (scale_pos_val ln_tail [- 2])\<bar> \<and>
   - 2 \<le> hd (scale_pos_val ln_tail [1000]) \<and> hd (scale_pos_val ln_tail [1000]) \<le> 2"
proof -
  note p = scale_pos_val_properties [OF ln_tail_spec]
  have m: "\<bar>hd (scale_pos_val ln_tail [1])\<bar> \<le> \<bar>hd (scale_pos_val ln_tail [- 2])\<bar>"
    using p [of "[]"] by simp
  have "hd (scale_pos_val ln_tail [1000]) \<in> set (scale_pos_val ln_tail [1000])"
    by (simp add: scale_pos_val_map)
  with p [of "[1000]"] have r: "- 2 \<le> hd (scale_pos_val ln_tail [1000]) \<and>
      hd (scale_pos_val ln_tail [1000]) \<le> 2" by blast
  from p [of "[]"] m r ln_tail_spec show ?thesis by simp
qed

text \<open>
  Claim C9. A call of \<open>init_raw_data\<close> that returns a window has fetched exactly the
  \<open>shape["max"] + 1\<close> consecutive records that end at the index, each once and in order,
  and all of them exist; when a record of that range is missing no window is returned;
  on a store whose records carry every group's field, the call fails with
  DataUnavailable at the first missing record and fetches nothing after it.
  \<open>update_raw_data\<close> fetches exactly the record at the index, and fails with
  DataUnavailable when it is missing.
\<close>

theorem fetch_protocol:
  assumes mx: "map_of sh ''max'' = Some m"
  shows "(\<forall>w c'. init_raw_data a c sh i = (Inr w, c') \<longrightarrow>
            fetched c' = fetched c @ map (key_of a) [i - m..i] \<and>
            length [i - m..i] = nat (m + 1) \<and>
            (\<forall>j \<in> set [i - m..i]. recs c (key_of a j) \<noteq> None)) \<and>
         (\<forall>j0. i - m \<le> j0 \<and> j0 \<le> i \<and> recs c (key_of a j0) = None \<longrightarrow>
            (\<forall>w. fst (init_raw_data a c sh i) \<noteq> Inr w)) \<and>
         (\<forall>j0. schema_ok (feat_group_inds sh) c \<and> i - m \<le> j0 \<and> j0 \<le> i \<and>
               recs c (key_of a j0) = None \<and>
               (\<forall>j. i - m \<le> j \<and> j < j0 \<longrightarrow> recs c (key_of a j) \<noteq> None) \<longrightarrow>
            init_raw_data a c sh i =
              (Inl DataUnavailable,
               c\<lparr>fetched := fetched c @ map (key_of a) [i - m..j0]\<rparr>)) \<and>
         fetched (snd (update_raw_data a c sh w0 i)) = fetched c @ [key_of a i] \<and>
         (recs c (key_of a i) = None \<longrightarrow>
            fst (update_raw_data a c sh w0 i) = Inl DataUnavailable)"
proof (intro conjI allI impI)
  fix w c' assume r: "init_raw_data a c sh i = (Inr w, c')"
  from init_raw_data_fetched [OF mx r]
  show "fetched c' = fetched c @ map (key_of a) [i - m..i]"
    and "\<forall>j \<in> set [i - m..i]. recs c (key_of a j) \<noteq> None" by blast+
  show "length [i - m..i] = nat (m + 1)" by simp
next
  fix j0 w
  assume h: "i - m \<le> j0 \<and> j0 \<le> i \<and> recs c (key_of a j0) = None"
  show "fst (init_raw_data a c sh i) \<noteq> Inr w"
  proof
    assume "fst (init_raw_data a c sh i) = Inr w"
    then obtain c' where "init_raw_data a c sh i = (Inr w, c')"
      by (cases "init_raw_data a c sh i") auto
    from init_raw_data_fetched [OF mx this]
    have "\<forall>j \<in> set [i - m..i]. recs c (key_of a j) \<noteq> None" by blast
    moreover from h have "j0 \<in> set [i - m..i]" by simp
    ultimately show False using h by blast
  qed
next
  fix j0
  assume h: "schema_ok (feat_group_inds sh) c \<and> i - m \<le> j0 \<and> j0 \<le> i \<and>
             recs c (key_of a j0) = None \<and>
             (\<forall>j. i - m \<le> j \<and> j < j0 \<longrightarrow> recs c (key_of a j) \<noteq> None)"
  then show "init_raw_data a c sh i =
      (Inl DataUnavailable, c\<lparr>fetched := fetched c @ map (key_of a) [i - m..j0]\<rparr>)"
    by (intro init_raw_data_miss [OF mx]) blast+
next
  show "fetched (snd (update_raw_data a c sh w0 i)) = fetched c @ [key_of a i]"
    by (rule update_raw_data_fetched)
next
  assume "recs c (key_of a i) = None"
  then show "fst (update_raw_data a c sh w0 i) = Inl DataUnavailable"
    by (rule update_raw_data_miss)
qed

theorem fetch_protocol_witness:
  "map_of demo_shape ''max'' = Some 2 \<and>
   schema_ok (feat_group_inds demo_shape) tick_store \<and>
   fetched (snd (init_raw_data tick_config tick_store demo_shape 2)) =
     [(''test'', ''ticks'', 0), (''test'', ''ticks'', 1), (''test'', ''ticks'', 2)] \<and>
   init_raw_data tick_config tick_store demo_shape 11 =
     (Inl DataUnavailable,
      tick_store\<lparr>fetched := [(''test'', ''ticks'', 9), (''test'', ''ticks'', 10),
                                (''test'', ''ticks'', 11)]\<rparr>) \<and>
   update_raw_data tick_config tick_store demo_shape demo_window 11 =
     (Inl DataUnavailable, tick_store\<lparr>fetched := [(''test'', ''ticks'', 11)]\<rparr>)"
proof -
  have mx: "map_of demo_shape ''max'' = Some 2" by (simp add: demo_shape_def)
  have sc: "schema_ok (feat_group_inds demo_shape) tick_store"
    using tick_store_schema by (simp add: feat_group_inds_def demo_shape_def)
  note init_ok = fetch_protocol [OF mx, where a = tick_config and c = tick_store and i = 2,
      THEN conjunct1, rule_format]
  note init_miss = fetch_protocol [OF mx, where a = tick_config and c = tick_store and i = 11,
      THEN conjunct2, THEN conjunct2, THEN conjunct1, rule_format]
  note upd = fetch_protocol [OF mx, where a = tick_config and c = tick_store and i = 11
      and ?w0.0 = demo_window, THEN conjunct2, THEN conjunct2, THEN conjunct2]
  have miss: "recs tick_store (key_of tick_config 11) = None"
    by (simp add: tick_store_def key_of_def tick_config_def)
  have before: "\<forall>j. 11 - 2 \<le> j \<and> j < 11 \<longrightarrow> recs tick_store (key_of tick_config j) \<noteq> None"
    by (simp add: tick_store_def key_of_def tick_config_def)
  have "init_raw_data tick_config tick_store demo_shape 11 =
          (Inl DataUnavailable,
           tick_store\<lparr>fetched := fetched tick_store @ map (key_of tick_config) [11 - 2..11]\<rparr>)"
    by (rule init_miss) (use sc miss before in simp)
  then have a: "init_raw_data tick_config tick_store demo_shape 11 =
     (Inl DataUnavailable,
      tick_store\<lparr>fetched := [(''test'', ''ticks'', 9), (''test'', ''ticks'', 10),
                                (''test'', ''ticks'', 11)]\<rparr>)"
    by (simp add: key_of_def tick_config_def tick_store_def upto_rec1)
  from upd miss
  have "fst (update_raw_data tick_config tick_store demo_shape demo_window 11) =
          Inl DataUnavailable"
    and "fetched (snd (update_raw_data tick_config tick_store demo_shape demo_window 11)) =
          fetched tick_store @ [key_of tick_config 11]"
    by simp_all
  then have b: "update_raw_data tick_config tick_store demo_shape demo_window 11 =
     (Inl DataUnavailable, tick_store\<lparr>fetched := [(''test'', ''ticks'', 11)]\<rparr>)"
    by (simp add: tick_defs)
  from init_ok [OF demo_init]
  have "fetched (snd (init_raw_data tick_config tick_store demo_shape 2)) =
          fetched tick_store @ map (key_of tick_config) [2 - 2..2]"
    by (simp add: demo_init)
  then have c: "fetched (snd (init_raw_data tick_config tick_store demo_shape 2)) =
     [(''test'', ''ticks'', 0), (''test'', ''ticks'', 1), (''test'', ''ticks'', 2)]"
    by (simp add: key_of_def tick_config_def tick_store_def upto_rec1)
  from mx sc a b c show ?thesis by simp
qed



end
